theory Spec2Isabelle
  imports Complex_Main "HOL-Library.Multiset" "HOL-Library.AList" "HOL-Library.Product_Lexorder"
begin

section \<open>Data model (src/src/project.py)\<close>

text \<open>
  Python floats are modelled as exact reals, Python ints as \<open>int\<close>, Python strings as
  \<open>string\<close>.  Exceptions are values of the type \<open>error\<close>; a function that may
  raise returns \<open>error + 'a\<close> with \<open>Inl\<close> for the raised exception.
\<close>

datatype error =
  ValueError string | KeyError string | IndexError | ZeroDivisionError | AttributeError

record task =
  name :: string
  estimated_days :: real
  cost_per_day :: real
  dependencies :: "string list"
  task_id :: string

record project =
  project_name :: string
  tasks :: "task list"
  team_size :: int
  risk_level :: string
  description :: string

text \<open>\<open>str.lower()\<close> on the ASCII letters, \<open>str.replace(" ", "_")\<close> and the slice \<open>[:20]\<close>.\<close>

definition lower_char :: "char \<Rightarrow> char" where
  "lower_char c =
     (case map_of (zip ''ABCDEFGHIJKLMNOPQRSTUVWXYZ'' ''abcdefghijklmnopqrstuvwxyz'') c of
        Some l \<Rightarrow> l
      | None \<Rightarrow> c)"

definition lower :: "string \<Rightarrow> string" where
  "lower s = map lower_char s"

definition replace_space :: "string \<Rightarrow> string" where
  "replace_space s = map (\<lambda>c. if c = CHR '' '' then CHR ''_'' else c) s"

text \<open>
  \<open>Task.__post_init__\<close>: the only thing the constructor does is to derive \<open>task_id\<close> from
  the name when none was supplied.  No branch raises.
\<close>

definition Task_post_init ::
  "string \<Rightarrow> real \<Rightarrow> real \<Rightarrow> string list \<Rightarrow> string option \<Rightarrow> error + task" where
  "Task_post_init nm days cost deps tid =
     Inr \<lparr> name = nm, estimated_days = days, cost_per_day = cost, dependencies = deps,
           task_id = (case tid of None \<Rightarrow> take 20 (replace_space (lower nm)) | Some i \<Rightarrow> i) \<rparr>"

definition base_cost :: "task \<Rightarrow> real" where
  "base_cost t = estimated_days t * cost_per_day t"

definition valid_risk_levels :: "string list" where
  "valid_risk_levels = [''low'', ''medium'', ''high'']"

text \<open>\<open>Project.__post_init__\<close>: the three checks in the order of the source, then the
  normalisation of \<open>risk_level\<close>.\<close>

definition Project_post_init ::
  "string \<Rightarrow> task list \<Rightarrow> int \<Rightarrow> string \<Rightarrow> string \<Rightarrow> error + project" where
  "Project_post_init nm ts sz rl descr =
     (if sz \<le> 0 then Inl (ValueError ''Team size must be at least 1'')
      else if ts = [] then Inl (ValueError ''Project must have at least one task'')
      else if lower rl \<notin> set valid_risk_levels
        then Inl (ValueError ''Risk level must be one of [low, medium, high]'')
      else Inr \<lparr> project_name = nm, tasks = ts, team_size = sz, risk_level = lower rl,
                 description = descr \<rparr>)"

definition total_base_cost :: "project \<Rightarrow> real" where
  "total_base_cost p = sum_list (map base_cost (tasks p))"

definition total_estimated_days :: "project \<Rightarrow> real" where
  "total_estimated_days p = sum_list (map estimated_days (tasks p))"

definition task_count :: "project \<Rightarrow> int" where
  "task_count p = int (length (tasks p))"

fun get_task_by_id :: "task list \<Rightarrow> string \<Rightarrow> task option" where
  "get_task_by_id [] i = None"
| "get_task_by_id (t # ts) i = (if task_id t = i then Some t else get_task_by_id ts i)"


section \<open>Utilities (src/src/utils.py)\<close>

text \<open>
  A Python \<open>dict\<close> is an association list with distinct keys in insertion order:
  \<open>d[k] = v\<close> is \<open>AList.update k v d\<close> (the value is replaced in place, a new key goes
  to the end), \<open>k in d\<close> is \<open>map_of d k \<noteq> None\<close>, \<open>d[k]\<close> raises \<open>KeyError\<close> on
  a missing key and \<open>d.get(k, v)\<close> does not.
\<close>

type_synonym 'v dict = "(string \<times> 'v) list"

definition dict_at :: "'v dict \<Rightarrow> string \<Rightarrow> error + 'v" where
  "dict_at d k = (case map_of d k of None \<Rightarrow> Inl (KeyError k) | Some v \<Rightarrow> Inr v)"

definition dict_get :: "'v dict \<Rightarrow> string \<Rightarrow> 'v \<Rightarrow> 'v" where
  "dict_get d k dflt = (case map_of d k of None \<Rightarrow> dflt | Some v \<Rightarrow> v)"

definition dict_values :: "'v dict \<Rightarrow> 'v list" where
  "dict_values d = map snd d"

definition dict_keys :: "'v dict \<Rightarrow> string list" where
  "dict_keys d = map fst d"

text \<open>\<open>max(xs)\<close> and \<open>min(xs)\<close> of a non-empty sequence; both raise \<open>ValueError\<close> on
  an empty one.\<close>

definition py_max :: "real list \<Rightarrow> error + real" where
  "py_max xs = (case xs of [] \<Rightarrow> Inl (ValueError ''max() arg is an empty sequence'')
                | y # ys \<Rightarrow> Inr (fold max ys y))"

definition py_min :: "real list \<Rightarrow> error + real" where
  "py_min xs = (case xs of [] \<Rightarrow> Inl (ValueError ''min() arg is an empty sequence'')
                | y # ys \<Rightarrow> Inr (fold min ys y))"

text \<open>True division, \<open>int(x)\<close> (truncation towards zero) and list indexing with the
  negative indices of Python.\<close>

definition py_div :: "real \<Rightarrow> real \<Rightarrow> error + real" where
  "py_div a b = (if b = 0 then Inl ZeroDivisionError else Inr (a / b))"

definition py_int :: "real \<Rightarrow> int" where
  "py_int x = (if x < 0 then \<lceil>x\<rceil> else \<lfloor>x\<rfloor>)"

definition py_index :: "'a list \<Rightarrow> int \<Rightarrow> error + 'a" where
  "py_index xs i =
     (if 0 \<le> i \<and> i < int (length xs) then Inr (xs ! nat i)
      else if i < 0 \<and> - int (length xs) \<le> i then Inr (xs ! nat (int (length xs) + i))
      else Inl IndexError)"

definition get_risk_multiplier :: "string \<Rightarrow> real" where
  "get_risk_multiplier rl =
     dict_get [(''low'', 1.1), (''medium'', 1.3), (''high'', 1.6)] (lower rl) 1.3"

text \<open>
  \<open>calculate_percentile\<close>: the floats of the source are real numbers here, so the index
  \<open>int(len(sorted_values) * (percentile / 100))\<close> is computed without rounding. The source
  computes it in binary64; the two agree where quotient and product are exact, as at the
  percentiles 0 and 100 (\<open>0 / 100 = 0.0\<close>, \<open>100 / 100 = 1.0\<close>), and can differ elsewhere
  (\<open>int(100 * (29 / 100))\<close> is 28 in the source). The index has an upper cap only; a
  negative index counts from the end of the list.
\<close>

definition calculate_percentile :: "real list \<Rightarrow> real \<Rightarrow> error + real" where
  "calculate_percentile values percentile =
     (if values = [] then Inr 0
      else let sorted_values = sort values;
               index = py_int (real (length sorted_values) * (percentile / 100));
               index = min index (int (length sorted_values) - 1)
           in py_index sorted_values index)"

section \<open>Monte Carlo risk simulation (src/src/risk_simulator.py)\<close>

record simulation_result =
  costs :: "real list"
  timelines :: "real list"
  iterations :: int

definition cost_mean :: "simulation_result \<Rightarrow> error + real" where
  "cost_mean r =
     (if costs r \<noteq> [] then py_div (sum_list (costs r)) (real (length (costs r))) else Inr 0)"

definition timeline_mean :: "simulation_result \<Rightarrow> error + real" where
  "timeline_mean r =
     (if timelines r \<noteq> [] then py_div (sum_list (timelines r)) (real (length (timelines r)))
      else Inr 0)"

definition cost_std :: "simulation_result \<Rightarrow> error + real" where
  "cost_std r =
     (if costs r = [] then Inr 0
      else case cost_mean r of
        Inl e \<Rightarrow> Inl e
      | Inr mean \<Rightarrow>
          (case py_div (sum_list (map (\<lambda>x. (x - mean)\<^sup>2) (costs r))) (real (length (costs r))) of
             Inl e \<Rightarrow> Inl e
           | Inr variance \<Rightarrow> Inr (variance powr 0.5)))"

definition timeline_std :: "simulation_result \<Rightarrow> error + real" where
  "timeline_std r =
     (if timelines r = [] then Inr 0
      else case timeline_mean r of
        Inl e \<Rightarrow> Inl e
      | Inr mean \<Rightarrow>
          (case py_div (sum_list (map (\<lambda>x. (x - mean)\<^sup>2) (timelines r)))
                  (real (length (timelines r))) of
             Inl e \<Rightarrow> Inl e
           | Inr variance \<Rightarrow> Inr (variance powr 0.5)))"

definition get_cost_percentile :: "simulation_result \<Rightarrow> real \<Rightarrow> error + real" where
  "get_cost_percentile r percentile = calculate_percentile (costs r) percentile"

definition get_timeline_percentile :: "simulation_result \<Rightarrow> real \<Rightarrow> error + real" where
  "get_timeline_percentile r percentile = calculate_percentile (timelines r) percentile"

text \<open>
  The module-level generator \<open>random\<close> is an explicit stream of raw draws that every call
  consumes from the front: \<open>random.uniform(a, b)\<close> is \<open>a + (b - a) * u\<close> for the next
  draw \<open>u\<close>, \<open>random.gauss(mu, sigma)\<close> is \<open>mu + sigma * z\<close> for the next draw \<open>z\<close>.
  Nothing is assumed about the values drawn.
\<close>

type_synonym rng = "nat \<Rightarrow> real"

definition rng_next :: "rng \<Rightarrow> real \<times> rng" where
  "rng_next g = (g 0, \<lambda>n. g (Suc n))"

definition random_uniform :: "real \<Rightarrow> real \<Rightarrow> rng \<Rightarrow> real \<times> rng" where
  "random_uniform a b g = (case rng_next g of (u, g') \<Rightarrow> (a + (b - a) * u, g'))"

definition random_gauss :: "real \<Rightarrow> real \<Rightarrow> rng \<Rightarrow> real \<times> rng" where
  "random_gauss mu sigma g = (case rng_next g of (z, g') \<Rightarrow> (mu + sigma * z, g'))"

record risk_simulator =
  rs_project :: project
  rs_iterations :: int

text \<open>\<open>RiskSimulator.__init__\<close>\<close>

definition RiskSimulator_init :: "project \<Rightarrow> int \<Rightarrow> risk_simulator" where
  "RiskSimulator_init p n = \<lparr> rs_project = p, rs_iterations = max 100 n \<rparr>"

definition get_variation_range :: "project \<Rightarrow> real" where
  "get_variation_range p =
     dict_get [(''low'', 0.15), (''medium'', 0.30), (''high'', 0.50)] (risk_level p) 0.30"

definition get_risk_factor :: "project \<Rightarrow> rng \<Rightarrow> real \<times> rng" where
  "get_risk_factor p g =
     (let base_multiplier =
            dict_get [(''low'', 1.05), (''medium'', 1.15), (''high'', 1.30)] (risk_level p) 1.15
      in case random_gauss 0 0.1 g of
           (variation, g') \<Rightarrow> (max 1.0 (base_multiplier + variation), g'))"

text \<open>The inner loop over \<open>task.dependencies\<close> shared by the forward passes: a dependency
  without a recorded finish time is skipped.\<close>

definition deps_earliest_start :: "real dict \<Rightarrow> string list \<Rightarrow> real" where
  "deps_earliest_start task_finish_times deps =
     fold (\<lambda>dep_id earliest_start.
             case map_of task_finish_times dep_id of
               Some f \<Rightarrow> max earliest_start f
             | None \<Rightarrow> earliest_start) deps 0"

fun scenario_finish_times :: "real dict \<Rightarrow> task list \<Rightarrow> real dict \<Rightarrow> error + real dict" where
  "scenario_finish_times task_durations [] tft = Inr tft"
| "scenario_finish_times task_durations (t # ts) tft =
     (case dict_at task_durations (task_id t) of
        Inl e \<Rightarrow> Inl e
      | Inr d \<Rightarrow>
          scenario_finish_times task_durations ts
            (AList.update (task_id t) (deps_earliest_start tft (dependencies t) + d) tft))"

definition max_or_zero :: "real dict \<Rightarrow> error + real" where
  "max_or_zero d = (if d \<noteq> [] then py_max (dict_values d) else Inr 0)"

definition calculate_scenario_timeline ::
  "project \<Rightarrow> real dict \<Rightarrow> rng \<Rightarrow> error + (real \<times> rng)" where
  "calculate_scenario_timeline p task_durations g =
     (case scenario_finish_times task_durations (tasks p) [] of
        Inl e \<Rightarrow> Inl e
      | Inr tft \<Rightarrow>
          if team_size p < task_count p then
            (case py_div (real_of_int (task_count p)) (real_of_int (team_size p)) of
               Inl e \<Rightarrow> Inl e
             | Inr q \<Rightarrow>
                 (case random_uniform 0.8 1.2 g of
                    (u, g') \<Rightarrow>
                      (case max_or_zero tft of
                         Inl e \<Rightarrow> Inl e
                       | Inr m \<Rightarrow>
                           Inr ((if tft \<noteq> [] then m * ((1.0 + 0.1 * (q - 1)) * u) else 0), g'))))
          else (case max_or_zero tft of Inl e \<Rightarrow> Inl e | Inr m \<Rightarrow> Inr (m, g)))"

text \<open>The loop over the tasks of \<open>_simulate_single_scenario\<close>: accumulates the total cost
  and the perturbed durations, two draws per task.\<close>

fun scenario_tasks ::
  "project \<Rightarrow> task list \<Rightarrow> real \<times> real dict \<times> rng \<Rightarrow> real \<times> real dict \<times> rng" where
  "scenario_tasks p [] acc = acc"
| "scenario_tasks p (t # ts) (total_cost, task_durations, g) =
     (let variation_range = get_variation_range p in
      case random_uniform (1.0 - variation_range * 0.5) (1.0 + variation_range) g of
        (cost_multiplier, g1) \<Rightarrow>
          (case random_uniform (1.0 - variation_range * 0.3) (1.0 + variation_range * 1.2) g1 of
             (time_multiplier, g2) \<Rightarrow>
               scenario_tasks p ts
                 (total_cost + base_cost t * cost_multiplier,
                  AList.update (task_id t) (estimated_days t * time_multiplier) task_durations,
                  g2)))"

definition simulate_single_scenario :: "project \<Rightarrow> rng \<Rightarrow> error + ((real \<times> real) \<times> rng)" where
  "simulate_single_scenario p g =
     (case scenario_tasks p (tasks p) (0, [], g) of
        (total_cost, task_durations, g1) \<Rightarrow>
          (case calculate_scenario_timeline p task_durations g1 of
             Inl e \<Rightarrow> Inl e
           | Inr (total_timeline, g2) \<Rightarrow>
               (case get_risk_factor p g2 of
                  (risk_factor, g3) \<Rightarrow>
                    Inr ((total_cost * risk_factor, total_timeline * risk_factor), g3))))"

text \<open>\<open>run_simulation\<close>: \<open>for _ in range(self.iterations)\<close> is a recursion on the number
  of rounds left; \<open>range\<close> of a non-positive number is empty.\<close>

fun simulation_rounds ::
  "project \<Rightarrow> nat \<Rightarrow> real list \<Rightarrow> real list \<Rightarrow> rng \<Rightarrow> error + (real list \<times> real list)" where
  "simulation_rounds p 0 cs tls g = Inr (cs, tls)"
| "simulation_rounds p (Suc k) cs tls g =
     (case simulate_single_scenario p g of
        Inl e \<Rightarrow> Inl e
      | Inr ((scenario_cost, scenario_timeline), g') \<Rightarrow>
          simulation_rounds p k (cs @ [scenario_cost]) (tls @ [scenario_timeline]) g')"

definition run_simulation :: "risk_simulator \<Rightarrow> rng \<Rightarrow> error + simulation_result" where
  "run_simulation rs g =
     (case simulation_rounds (rs_project rs) (nat (rs_iterations rs)) [] [] g of
        Inl e \<Rightarrow> Inl e
      | Inr (cs, tls) \<Rightarrow>
          Inr \<lparr> costs = cs, timelines = tls, iterations = rs_iterations rs \<rparr>)"

section \<open>Critical path (src/src/project.py)\<close>

text \<open>A comprehension whose body may raise: the elements are evaluated in order and the
  first exception ends the evaluation.\<close>

fun map_err :: "('a \<Rightarrow> error + 'b) \<Rightarrow> 'a list \<Rightarrow> error + 'b list" where
  "map_err f [] = Inr []"
| "map_err f (x # xs) =
     (case f x of
        Inl e \<Rightarrow> Inl e
      | Inr y \<Rightarrow> (case map_err f xs of Inl e \<Rightarrow> Inl e | Inr ys \<Rightarrow> Inr (y # ys)))"

text \<open>A dict comprehension \<open>{k: v for ...}\<close>: the pairs are stored one after the other, a
  repeated key keeps its first position and takes the last value.\<close>

definition dict_of :: "(string \<times> 'v) list \<Rightarrow> 'v dict" where
  "dict_of kvs = fold (\<lambda>(k, v) d. AList.update k v d) kvs []"

text \<open>
  The body of the \<open>for task in self.tasks\<close> loop inside the queue loop of
  \<open>get_critical_path\<close>, for the task \<open>current_id\<close> just taken from the queue.  The triple
  is \<open>(queue, earliest_start, in_degree)\<close>.  \<open>current_task\<close> is the result of
  \<open>get_task_by_id\<close>; reading \<open>estimated_days\<close> of \<open>None\<close> raises \<open>AttributeError\<close>.
\<close>

fun update_dependents ::
  "string \<Rightarrow> task option \<Rightarrow> task list \<Rightarrow> string list \<times> real dict \<times> int dict \<Rightarrow>
     error + (string list \<times> real dict \<times> int dict)" where
  "update_dependents current_id current_task [] st = Inr st"
| "update_dependents current_id current_task (t # ts) (queue, earliest_start, in_degree) =
     (if current_id \<in> set (dependencies t) then
        (case dict_at earliest_start (task_id t) of
           Inl e \<Rightarrow> Inl e
         | Inr es_t \<Rightarrow>
        (case dict_at earliest_start current_id of
           Inl e \<Rightarrow> Inl e
         | Inr es_c \<Rightarrow>
        (case current_task of
           None \<Rightarrow> Inl AttributeError
         | Some ct \<Rightarrow>
        (case dict_at in_degree (task_id t) of
           Inl e \<Rightarrow> Inl e
         | Inr deg \<Rightarrow>
             update_dependents current_id current_task ts
               (if deg - 1 = 0 then queue @ [task_id t] else queue,
                AList.update (task_id t) (max es_t (es_c + estimated_days ct)) earliest_start,
                AList.update (task_id t) (deg - 1) in_degree)))))
      else update_dependents current_id current_task ts (queue, earliest_start, in_degree))"

text \<open>The \<open>while queue\<close> loop; it returns the final \<open>earliest_start\<close>.\<close>

partial_function (option) queue_loop ::
  "task list \<Rightarrow> string list \<times> real dict \<times> int dict \<Rightarrow> (error + real dict) option" where
  "queue_loop ts st =
     (case st of
        ([], earliest_start, in_degree) \<Rightarrow> Some (Inr earliest_start)
      | (current_id # queue, earliest_start, in_degree) \<Rightarrow>
          (case update_dependents current_id (get_task_by_id ts current_id) ts
                  (queue, earliest_start, in_degree) of
             Inl e \<Rightarrow> Some (Inl e)
           | Inr st' \<Rightarrow> queue_loop ts st'))"

declare queue_loop.simps [code]

text \<open>\<open>max(keys, key=...)\<close> over the pairs of a key and its score: the first key with the
  largest score.\<close>

definition max_by_key :: "(string \<times> real) list \<Rightarrow> error + string" where
  "max_by_key kss =
     (case kss of
        [] \<Rightarrow> Inl (ValueError ''max() arg is an empty sequence'')
      | ks # rest \<Rightarrow> Inr (fst (fold (\<lambda>c best. if snd best < snd c then c else best) rest ks)))"

definition finish_score :: "task list \<Rightarrow> real dict \<Rightarrow> string \<Rightarrow> error + (string \<times> real)" where
  "finish_score ts earliest_start tid =
     (case dict_at earliest_start tid of
        Inl e \<Rightarrow> Inl e
      | Inr es \<Rightarrow>
          (case get_task_by_id ts tid of
             None \<Rightarrow> Inl AttributeError
           | Some t \<Rightarrow> Inr (tid, es + estimated_days t)))"

text \<open>The \<open>for dep_id in current_task.dependencies\<close> loop of the backtracking: the first
  dependency whose finish time equals the earliest start of the current task, or \<open>None\<close>.\<close>

fun find_predecessor :: "task list \<Rightarrow> real dict \<Rightarrow> task \<Rightarrow> string list \<Rightarrow> error + string option"
  where
  "find_predecessor ts earliest_start current_task [] = Inr None"
| "find_predecessor ts earliest_start current_task (dep_id # deps) =
     (case dict_at earliest_start dep_id of
        Inl e \<Rightarrow> Inl e
      | Inr es_d \<Rightarrow>
     (case get_task_by_id ts dep_id of
        None \<Rightarrow> Inl AttributeError
      | Some dep_task \<Rightarrow>
     (case dict_at earliest_start (task_id current_task) of
        Inl e \<Rightarrow> Inl e
      | Inr es_c \<Rightarrow>
          if es_d + estimated_days dep_task = es_c then Inr (Some dep_id)
          else find_predecessor ts earliest_start current_task deps)))"

text \<open>The \<open>while current_id\<close> loop: \<open>None\<close> and the empty string end it.\<close>

partial_function (option) backtrack ::
  "task list \<Rightarrow> real dict \<Rightarrow> string option \<Rightarrow> task list \<Rightarrow> (error + task list) option" where
  "backtrack ts earliest_start current_id critical_path =
     (case current_id of
        None \<Rightarrow> Some (Inr critical_path)
      | Some cid \<Rightarrow>
          if cid = [] then Some (Inr critical_path)
          else
            (case get_task_by_id ts cid of
               None \<Rightarrow> Some (Inl AttributeError)
             | Some current_task \<Rightarrow>
                 if dependencies current_task = [] then Some (Inr (current_task # critical_path))
                 else
                   (case find_predecessor ts earliest_start current_task
                           (dependencies current_task) of
                      Inl e \<Rightarrow> Some (Inl e)
                    | Inr next_id \<Rightarrow>
                        backtrack ts earliest_start next_id (current_task # critical_path))))"

declare backtrack.simps [code]

text \<open>\<open>Project.get_critical_path\<close>.  The result is \<open>None\<close> when a loop does not end,
  \<open>Some (Inl e)\<close> when \<open>e\<close> is raised and \<open>Some (Inr path)\<close> when \<open>path\<close> is returned.\<close>

definition get_critical_path :: "project \<Rightarrow> (error + task list) option" where
  "get_critical_path p =
     (let in_degree = dict_of (map (\<lambda>t. (task_id t, int (length (dependencies t)))) (tasks p));
          earliest_start = dict_of (map (\<lambda>t. (task_id t, 0)) (tasks p))
      in case map_err (\<lambda>t. dict_at in_degree (task_id t)) (tasks p) of
           Inl e \<Rightarrow> Some (Inl e)
         | Inr degs \<Rightarrow>
             (case queue_loop (tasks p)
                     (map (\<lambda>(t, deg). task_id t) (filter (\<lambda>(t, deg). deg = 0) (zip (tasks p) degs)),
                      earliest_start, in_degree) of
                None \<Rightarrow> None
              | Some (Inl e) \<Rightarrow> Some (Inl e)
              | Some (Inr es) \<Rightarrow>
                  (case map_err (finish_score (tasks p) es) (dict_keys es) of
                     Inl e \<Rightarrow> Some (Inl e)
                   | Inr scores \<Rightarrow>
                       (case max_by_key scores of
                          Inl e \<Rightarrow> Some (Inl e)
                        | Inr end_task_id \<Rightarrow> backtrack (tasks p) es (Some end_task_id) []))))"

section \<open>Cost and timeline calculator (src/src/calculator.py)\<close>

text \<open>\<open>ProjectCalculator.__init__\<close> resolves the risk multiplier once from the Project.\<close>

definition risk_multiplier :: "project \<Rightarrow> real" where
  "risk_multiplier p = get_risk_multiplier (risk_level p)"

definition calculate_sequential_timeline :: "project \<Rightarrow> real" where
  "calculate_sequential_timeline p = total_estimated_days p * risk_multiplier p"

text \<open>
  The first loop of \<open>_simulate_resource_constrained_schedule\<close>, over the tasks in insertion
  order.  The pair is \<open>(task_start_times, task_finish_times)\<close>.
\<close>

fun dependency_times :: "task list \<Rightarrow> real dict \<times> real dict \<Rightarrow> real dict \<times> real dict" where
  "dependency_times [] st = st"
| "dependency_times (t # ts) (task_start_times, task_finish_times) =
     (let earliest_start = deps_earliest_start task_finish_times (dependencies t)
      in dependency_times ts
           (AList.update (task_id t) earliest_start task_start_times,
            AList.update (task_id t) (earliest_start + estimated_days t) task_finish_times))"

text \<open>The state of the rescheduling loop.  \<open>scheduled_start\<close> is written and never read,
  and is left out.\<close>

record sim_state =
  scheduled_finish :: "real dict"
  active_tasks :: "task list"
  current_time :: real
  remaining_tasks :: "task list"

definition deps_complete :: "real dict \<Rightarrow> real \<Rightarrow> task \<Rightarrow> bool" where
  "deps_complete sf now t =
     list_all (\<lambda>dep_id. case map_of sf dep_id of None \<Rightarrow> False | Some f \<Rightarrow> f \<le> now)
       (dependencies t)"

text \<open>The \<open>for task in can_start\<close> loop; \<open>list.remove\<close> raises \<open>ValueError\<close> when the
  element is not in the list.\<close>

fun start_tasks ::
  "real \<Rightarrow> task list \<Rightarrow> real dict \<times> task list \<times> task list \<Rightarrow>
     error + (real dict \<times> task list \<times> task list)" where
  "start_tasks now [] st = Inr st"
| "start_tasks now (t # ts) (sf, active, remaining) =
     (if t \<in> set remaining then
        start_tasks now ts
          (AList.update (task_id t) (now + estimated_days t) sf, active @ [t], remove1 t remaining)
      else Inl (ValueError ''list.remove(x): x not in list''))"

text \<open>One pass of the loop body up to the clock: retire the finished tasks, select the tasks
  that can start, start them.\<close>

definition schedule_round :: "int \<Rightarrow> sim_state \<Rightarrow> error + sim_state" where
  "schedule_round tsz s =
     (case map_err (\<lambda>t. dict_at (scheduled_finish s) (task_id t)) (active_tasks s) of
        Inl e \<Rightarrow> Inl e
      | Inr fs \<Rightarrow>
          (let active = map fst (filter (\<lambda>(t, f). current_time s < f) (zip (active_tasks s) fs));
               can_start =
                 filter (\<lambda>t. deps_complete (scheduled_finish s) (current_time s) t
                            \<and> int (length active) < tsz) (remaining_tasks s)
           in case start_tasks (current_time s) can_start
                     (scheduled_finish s, active, remaining_tasks s) of
                Inl e \<Rightarrow> Inl e
              | Inr (sf, active', remaining) \<Rightarrow>
                  Inr (s\<lparr> scheduled_finish := sf, active_tasks := active',
                          remaining_tasks := remaining \<rparr>)))"

text \<open>The end of the loop body: advance the clock, or leave the loop (\<open>None\<close>).\<close>

definition advance_clock :: "sim_state \<Rightarrow> error + sim_state option" where
  "advance_clock s =
     (if active_tasks s \<noteq> [] then
        (case map_err (\<lambda>t. dict_at (scheduled_finish s) (task_id t)) (active_tasks s) of
           Inl e \<Rightarrow> Inl e
         | Inr fs \<Rightarrow>
             (case py_min fs of
                Inl e \<Rightarrow> Inl e
              | Inr next_finish \<Rightarrow> Inr (Some (s\<lparr> current_time := next_finish \<rparr>))))
      else
        (case remaining_tasks s of
           next_task # _ \<Rightarrow>
             if dependencies next_task \<noteq> [] then
               (case py_max (map (\<lambda>dep_id. dict_get (scheduled_finish s) dep_id 0)
                               (dependencies next_task)) of
                  Inl e \<Rightarrow> Inl e
                | Inr m \<Rightarrow> Inr (Some (s\<lparr> current_time := m \<rparr>)))
             else Inr (Some (s\<lparr> current_time := current_time s + 0.1 \<rparr>))
         | [] \<Rightarrow> Inr None))"

text \<open>The \<open>while remaining_tasks or active_tasks\<close> loop with the final \<open>return\<close>.\<close>

partial_function (option) schedule_loop :: "int \<Rightarrow> sim_state \<Rightarrow> (error + real) option" where
  "schedule_loop tsz s =
     (if remaining_tasks s = [] \<and> active_tasks s = [] then
        Some (max_or_zero (scheduled_finish s))
      else
        (case schedule_round tsz s of
           Inl e \<Rightarrow> Some (Inl e)
         | Inr s1 \<Rightarrow>
             (case advance_clock s1 of
                Inl e \<Rightarrow> Some (Inl e)
              | Inr None \<Rightarrow> Some (max_or_zero (scheduled_finish s1))
              | Inr (Some s2) \<Rightarrow> schedule_loop tsz s2)))"

declare schedule_loop.simps [code]

text \<open>\<open>sorted(tasks, key=lambda t: (task_start_times[t.task_id], -t.estimated_days))\<close>: a
  stable sort on the pair, compared lexicographically.\<close>

definition sort_tasks :: "real dict \<Rightarrow> task list \<Rightarrow> error + task list" where
  "sort_tasks task_start_times ts =
     (case map_err (\<lambda>t. dict_at task_start_times (task_id t)) ts of
        Inl e \<Rightarrow> Inl e
      | Inr starts \<Rightarrow>
          Inr (map snd
                 (sort_key fst (map (\<lambda>(st, t). ((st, - estimated_days t), t)) (zip starts ts)))))"

definition simulate_resource_constrained_schedule :: "project \<Rightarrow> (error + real) option" where
  "simulate_resource_constrained_schedule p =
     (case dependency_times (tasks p) ([], []) of
        (task_start_times, task_finish_times) \<Rightarrow>
          if task_count p \<le> team_size p then Some (max_or_zero task_finish_times)
          else
            (case sort_tasks task_start_times (tasks p) of
               Inl e \<Rightarrow> Some (Inl e)
             | Inr sorted_tasks \<Rightarrow>
                 schedule_loop (team_size p)
                   \<lparr> scheduled_finish = [], active_tasks = [], current_time = 0,
                     remaining_tasks = sorted_tasks \<rparr>))"

definition calculate_parallel_timeline :: "project \<Rightarrow> (error + real) option" where
  "calculate_parallel_timeline p =
     (if tasks p = [] then Some (Inr 0)
      else
        (case get_critical_path p of
           None \<Rightarrow> None
         | Some (Inl e) \<Rightarrow> Some (Inl e)
         | Some (Inr critical_path) \<Rightarrow>
             (case simulate_resource_constrained_schedule p of
                None \<Rightarrow> None
              | Some (Inl e) \<Rightarrow> Some (Inl e)
              | Some (Inr timeline) \<Rightarrow>
                  Some (Inr (max (timeline * risk_multiplier p)
                               (sum_list (map estimated_days critical_path)
                                  * risk_multiplier p))))))"

section \<open>Reference schedule\<close>

text \<open>
  For comparison with the scheduler, the finish times as the specification words them:
  the finish time of a task is the maximum of the finish times of its dependencies, plus
  its own duration, and the schedule length is the maximum finish time over all tasks.
  The recursion follows the dependencies at most \<open>n\<close> levels deep; in an acyclic graph on
  \<open>n\<close> tasks no chain is longer.  A dependency that names no task adds no wait.
\<close>

fun spec_finish :: "task list \<Rightarrow> nat \<Rightarrow> string \<Rightarrow> real" where
  "spec_finish ts 0 i = 0"
| "spec_finish ts (Suc n) i =
     (case get_task_by_id ts i of
        None \<Rightarrow> 0
      | Some t \<Rightarrow> fold max (map (spec_finish ts n) (dependencies t)) 0 + estimated_days t)"

definition spec_max_finish :: "task list \<Rightarrow> real" where
  "spec_max_finish ts = fold max (map (\<lambda>t. spec_finish ts (length ts) (task_id t)) ts) 0"

section \<open>Invariants of the loops\<close>

text \<open>
  The invariant of the rescheduling loop, for a bound \<open>T\<close> on the sum of all task
  durations: the durations of the tasks still waiting are not negative and add up to at
  most \<open>T\<close>, and neither a recorded finish time nor the clock exceeds what the tasks
  already started add up to.
\<close>

definition schedule_inv :: "real \<Rightarrow> sim_state \<Rightarrow> bool" where
  "schedule_inv T s \<longleftrightarrow>
     (\<forall>t \<in> set (remaining_tasks s). 0 \<le> estimated_days t)
     \<and> sum_list (map estimated_days (remaining_tasks s)) \<le> T
     \<and> (\<forall>(k, v) \<in> set (scheduled_finish s).
           v \<le> T - sum_list (map estimated_days (remaining_tasks s)))
     \<and> current_time s \<le> T - sum_list (map estimated_days (remaining_tasks s))"

text \<open>
  The invariant of the backtracking loop: the path built so far consists of tasks of the
  Project, and the earliest start times of its tasks strictly increase along it.
\<close>

definition path_ok :: "task list \<Rightarrow> real dict \<Rightarrow> task list \<Rightarrow> bool" where
  "path_ok ts es path \<longleftrightarrow>
     set path \<subseteq> set ts
     \<and> sorted_wrt (\<lambda>a b. dict_get es (task_id a) 0 < dict_get es (task_id b) 0) path"

section \<open>Dependency validation (src/src/project.py)\<close>

text \<open>
  \<open>has_cycle\<close>, the recursive closure inside \<open>_has_circular_dependency\<close>, together with its
  \<open>for neighbor in graph.get(node, [])\<close> loop.  The two sets \<open>visited\<close> and \<open>rec_stack\<close>
  that the closure mutates are passed in and returned.  The first argument is the number of
  nested calls the interpreter still allows: the result is \<open>None\<close> when the recursion is
  deeper than that (\<open>RecursionError\<close>).  An early \<open>return True\<close> leaves the sets as they
  are at that moment.
\<close>

fun has_cycle ::
  "nat \<Rightarrow> string list dict \<Rightarrow> string \<Rightarrow> string set \<times> string set \<Rightarrow>
     (bool \<times> string set \<times> string set) option"
  and check_neighbors ::
  "nat \<Rightarrow> string list dict \<Rightarrow> string list \<Rightarrow> string set \<times> string set \<Rightarrow>
     (bool \<times> string set \<times> string set) option" where
  "has_cycle 0 graph node st = None"
| "has_cycle (Suc n) graph node (visited, rec_stack) =
     (case check_neighbors n graph (dict_get graph node [])
             (insert node visited, insert node rec_stack) of
        None \<Rightarrow> None
      | Some (True, st') \<Rightarrow> Some (True, st')
      | Some (False, (visited', rec_stack')) \<Rightarrow> Some (False, (visited', rec_stack' - {node})))"
| "check_neighbors n graph [] st = Some (False, st)"
| "check_neighbors n graph (neighbor # rest) (visited, rec_stack) =
     (if neighbor \<notin> visited then
        (case has_cycle n graph neighbor (visited, rec_stack) of
           None \<Rightarrow> None
         | Some (True, st') \<Rightarrow> Some (True, st')
         | Some (False, st') \<Rightarrow> check_neighbors n graph rest st')
      else if neighbor \<in> rec_stack then Some (True, (visited, rec_stack))
      else check_neighbors n graph rest (visited, rec_stack))"

text \<open>The \<open>for task in self.tasks\<close> loop of \<open>_has_circular_dependency\<close>.\<close>

fun has_circular_loop ::
  "nat \<Rightarrow> string list dict \<Rightarrow> task list \<Rightarrow> string set \<times> string set \<Rightarrow> bool option" where
  "has_circular_loop limit graph [] st = Some False"
| "has_circular_loop limit graph (t # ts) (visited, rec_stack) =
     (if task_id t \<notin> visited then
        (case has_cycle limit graph (task_id t) (visited, rec_stack) of
           None \<Rightarrow> None
         | Some (True, st') \<Rightarrow> Some True
         | Some (False, st') \<Rightarrow> has_circular_loop limit graph ts st')
      else has_circular_loop limit graph ts (visited, rec_stack))"

definition has_circular_dependency :: "nat \<Rightarrow> project \<Rightarrow> bool option" where
  "has_circular_dependency limit p =
     has_circular_loop limit (dict_of (map (\<lambda>t. (task_id t, dependencies t)) (tasks p)))
       (tasks p) ({}, {})"

text \<open>The message of a missing reference:
  \<open>f"Task '{task.name}' depends on non-existent task '{dep_id}'"\<close>.\<close>

definition missing_message :: "task \<Rightarrow> string \<Rightarrow> string" where
  "missing_message t dep_id =
     ''Task '' @ [CHR 0x27] @ name t @ [CHR 0x27] @ '' depends on non-existent task ''
       @ [CHR 0x27] @ dep_id @ [CHR 0x27]"

definition missing_errors :: "project \<Rightarrow> string list" where
  "missing_errors p =
     concat (map (\<lambda>t. map (missing_message t)
                         (filter (\<lambda>dep_id. dep_id \<notin> task_id ` set (tasks p)) (dependencies t)))
               (tasks p))"

text \<open>\<open>Project.validate_dependencies\<close>; it only reads the Project and returns the list of
  messages.\<close>

definition validate_dependencies :: "nat \<Rightarrow> project \<Rightarrow> string list option" where
  "validate_dependencies limit p =
     (case has_circular_dependency limit p of
        None \<Rightarrow> None
      | Some circular \<Rightarrow>
          Some (missing_errors p
                  @ (if circular then [''Project has circular dependencies''] else [])))"

section \<open>The dependency graph\<close>

text \<open>
  The dependency graph as the specification defines it: the nodes are task ids, and there
  is an edge from each declared dependency of a task to the id of that task (dependency
  to dependent).  The graph contains a cycle when some id reaches itself along one or more
  edges.
\<close>

definition dependency_edges :: "task list \<Rightarrow> (string \<times> string) set" where
  "dependency_edges ts = {(d, task_id t) | t d. t \<in> set ts \<and> d \<in> set (dependencies t)}"

definition cyclic :: "task list \<Rightarrow> bool" where
  "cyclic ts \<longleftrightarrow> (\<exists>x. (x, x) \<in> (dependency_edges ts)\<^sup>+)"

text \<open>The edges of the adjacency dict that \<open>_has_circular_dependency\<close> builds, from a key
  to each entry of its list.\<close>

definition graph_edges :: "string list dict \<Rightarrow> (string \<times> string) set" where
  "graph_edges graph = {(a, b). b \<in> set (dict_get graph a [])}"

text \<open>
  The invariant of the traversal: every node on the recursion stack is visited; the
  visited nodes that are off the stack have all their successors among themselves, and
  none of them lies on a cycle.
\<close>

definition dfs_inv :: "string list dict \<Rightarrow> string set \<Rightarrow> string set \<Rightarrow> bool" where
  "dfs_inv graph visited rec_stack \<longleftrightarrow>
     rec_stack \<subseteq> visited
     \<and> (\<forall>b \<in> visited - rec_stack. \<forall>c. (b, c) \<in> graph_edges graph \<longrightarrow> c \<in> visited - rec_stack)
     \<and> (\<forall>b \<in> visited - rec_stack. (b, b) \<notin> (graph_edges graph)\<^sup>+)"

text \<open>
  What a call of the traversal started with the sets \<open>visited\<close> and \<open>rec_stack\<close> has to
  deliver: either it answers \<open>True\<close> and the graph has a cycle, or it answers \<open>False\<close>,
  the recursion stack is as before, the visited set has grown, the invariant holds again
  and the nodes \<open>done\<close> that the call was to explore are visited and off the stack.
\<close>

definition dfs_result ::
  "string list dict \<Rightarrow> string set \<Rightarrow> string set \<Rightarrow> string set \<Rightarrow>
     (bool \<times> string set \<times> string set) option \<Rightarrow> bool" where
  "dfs_result graph visited rec_stack done res \<longleftrightarrow>
     (\<exists>st. res = Some (True, st) \<and> (\<exists>y. (y, y) \<in> (graph_edges graph)\<^sup>+))
     \<or> (\<exists>visited'. res = Some (False, visited', rec_stack) \<and> visited \<subseteq> visited'
           \<and> done \<subseteq> visited' - rec_stack \<and> dfs_inv graph visited' rec_stack)"

section \<open>Verified properties\<close>

subsection \<open>Construction of tasks and projects\<close>

text \<open>
  C1, the claim as stated fails: \<open>Task.__post_init__\<close> does not look at
  \<open>estimated_days\<close> or \<open>cost_per_day\<close>, so a task with a negative duration and a zero
  rate is constructed and returned.
\<close>

theorem task_unchecked_counterexample:
  "Task_post_init ''A'' (- 1) 0 [] None =
     Inr \<lparr> name = ''A'', estimated_days = - 1, cost_per_day = 0, dependencies = [],
           task_id = ''a'' \<rparr>"
  by (simp add: Task_post_init_def lower_def lower_char_def replace_space_def)

text \<open>
  C1, amended: constructing a Project with a non-positive team size, an empty task list or
  a risk level whose lowercase form is not one of low, medium, high raises \<open>ValueError\<close>
  and no Project is returned; every Project that is returned has a positive team size, at
  least one task and a normalised risk level in the valid set.  Constructing a Task always
  returns a Task that stores the duration and the rate it was given, unchecked.
\<close>

theorem construction_checks:
  "(sz \<le> 0 \<or> ts = [] \<or> lower rl \<notin> set valid_risk_levels \<longrightarrow>
      (\<exists>msg. Project_post_init nm ts sz rl d = Inl (ValueError msg)))
   \<and> (\<forall>p. Project_post_init nm ts sz rl d = Inr p \<longrightarrow>
          0 < team_size p \<and> tasks p \<noteq> [] \<and> risk_level p \<in> set valid_risk_levels
          \<and> risk_level p = lower rl)
   \<and> (\<exists>t. Task_post_init tn days cost deps tid = Inr t
          \<and> estimated_days t = days \<and> cost_per_day t = cost)"
  by (auto simp: Project_post_init_def Task_post_init_def)

theorem construction_checks_witness:
  "(\<exists>msg. Project_post_init ''P'' [] 0 ''bad'' '''' = Inl (ValueError msg))
   \<and> 0 < team_size \<lparr> project_name = ''P'',
           tasks = [\<lparr> name = ''A'', estimated_days = 5, cost_per_day = 10, dependencies = [],
                      task_id = ''a'' \<rparr>],
           team_size = 1, risk_level = ''low'', description = '''' \<rparr>"
proof -
  let ?t = "\<lparr> name = ''A'', estimated_days = 5, cost_per_day = 10, dependencies = [],
              task_id = ''a'' \<rparr>"
  let ?p = "\<lparr> project_name = ''P'', tasks = [?t], team_size = 1, risk_level = ''low'',
              description = '''' \<rparr>"
  have bad: "(0::int) \<le> 0 \<or> ([]::task list) = [] \<or> lower ''bad'' \<notin> set valid_risk_levels"
    by simp
  have good: "Project_post_init ''P'' [?t] 1 ''LOW'' '''' = Inr ?p"
    by (simp add: Project_post_init_def valid_risk_levels_def lower_def lower_char_def)
  from construction_checks [of 0 "[]" "''bad''" "''P''" "''''"] bad
  have "\<exists>msg. Project_post_init ''P'' [] 0 ''bad'' '''' = Inl (ValueError msg)"
    by blast
  moreover from construction_checks [of 1 "[?t]" "''LOW''" "''P''" "''''"] good
  have "0 < team_size ?p"
    by blast
  ultimately show ?thesis
    by blast
qed

text \<open>
  C9, the claim as stated fails: two tasks named ``Build'' and ``build'' both derive the id
  \<open>build\<close>, and the Project holding both is constructed.
\<close>

theorem duplicate_task_id_counterexample:
  "Task_post_init ''Build'' 1 1 [] None =
     Inr \<lparr> name = ''Build'', estimated_days = 1, cost_per_day = 1, dependencies = [],
           task_id = ''build'' \<rparr>
   \<and> Task_post_init ''build'' 2 2 [] None =
     Inr \<lparr> name = ''build'', estimated_days = 2, cost_per_day = 2, dependencies = [],
           task_id = ''build'' \<rparr>
   \<and> Project_post_init ''P''
       [\<lparr> name = ''Build'', estimated_days = 1, cost_per_day = 1, dependencies = [],
          task_id = ''build'' \<rparr>,
        \<lparr> name = ''build'', estimated_days = 2, cost_per_day = 2, dependencies = [],
          task_id = ''build'' \<rparr>] 2 ''low'' '''' =
     Inr \<lparr> project_name = ''P'',
           tasks = [\<lparr> name = ''Build'', estimated_days = 1, cost_per_day = 1, dependencies = [],
                      task_id = ''build'' \<rparr>,
                    \<lparr> name = ''build'', estimated_days = 2, cost_per_day = 2, dependencies = [],
                      task_id = ''build'' \<rparr>],
           team_size = 2, risk_level = ''low'', description = '''' \<rparr>"
  by (simp add: Task_post_init_def Project_post_init_def valid_risk_levels_def lower_def
      lower_char_def replace_space_def)

text \<open>
  C9, amended: a task id that is not supplied is derived from the name (lowercased, spaces
  replaced by underscores, cut to 20 characters) and a supplied one is kept; Project
  construction neither checks nor changes the ids, so the ids of a constructed Project are
  pairwise distinct exactly when those of the tasks passed in are.
\<close>

theorem task_id_derivation:
  "(\<forall>t. Task_post_init tn days cost deps None = Inr t \<longrightarrow>
        task_id t = take 20 (replace_space (lower tn)) \<and> length (task_id t) \<le> 20
        \<and> CHR '' '' \<notin> set (task_id t))
   \<and> (\<forall>t. Task_post_init tn days cost deps (Some i) = Inr t \<longrightarrow> task_id t = i)
   \<and> (\<forall>p. Project_post_init nm ts sz rl d = Inr p \<longrightarrow>
        tasks p = ts \<and> (distinct (map task_id (tasks p)) \<longleftrightarrow> distinct (map task_id ts)))"
  by (auto simp: Task_post_init_def Project_post_init_def replace_space_def
      dest!: in_set_takeD split: if_splits)

theorem task_id_derivation_witness:
  "length (task_id \<lparr> name = ''My Test Task Has A Long Name'', estimated_days = 5,
       cost_per_day = 100, dependencies = [], task_id = ''my_test_task_has_a_l'' \<rparr>) \<le> 20
   \<and> task_id \<lparr> name = ''T'', estimated_days = 5, cost_per_day = 100, dependencies = [],
       task_id = ''t1'' \<rparr> = ''t1''"
proof -
  let ?t = "\<lparr> name = ''My Test Task Has A Long Name'', estimated_days = 5,
       cost_per_day = 100, dependencies = [], task_id = ''my_test_task_has_a_l'' \<rparr>"
  let ?u = "\<lparr> name = ''T'', estimated_days = 5, cost_per_day = 100, dependencies = [],
       task_id = ''t1'' \<rparr>"
  have derived: "Task_post_init ''My Test Task Has A Long Name'' 5 100 [] None = Inr ?t"
    by (simp add: Task_post_init_def lower_def lower_char_def replace_space_def)
  have supplied: "Task_post_init ''T'' 5 100 [] (Some ''t1'') = Inr ?u"
    by (simp add: Task_post_init_def)
  from task_id_derivation [of "''My Test Task Has A Long Name''" 5 100 "[]"] derived
  have "length (task_id ?t) \<le> 20"
    by blast
  moreover from task_id_derivation [of "''T''" 5 100 "[]" "''t1''"] supplied
  have "task_id ?u = ''t1''"
    by blast
  ultimately show ?thesis
    by blast
qed

subsection \<open>Statistics of a simulation result\<close>

text \<open>
  C10: on an empty cost series the cost mean and the cost standard deviation are 0, on an
  empty timeline series the timeline mean and standard deviation are 0, and the percentile
  of an empty list is 0; none of them raises.
\<close>

theorem empty_series_statistics:
  "(costs r = [] \<longrightarrow> cost_mean r = Inr 0 \<and> cost_std r = Inr 0
       \<and> get_cost_percentile r p = Inr 0)
   \<and> (timelines r = [] \<longrightarrow> timeline_mean r = Inr 0 \<and> timeline_std r = Inr 0
       \<and> get_timeline_percentile r p = Inr 0)
   \<and> calculate_percentile [] p = Inr 0"
  by (simp add: cost_mean_def cost_std_def timeline_mean_def timeline_std_def
      get_cost_percentile_def get_timeline_percentile_def calculate_percentile_def)

theorem empty_series_statistics_witness:
  "cost_mean \<lparr> costs = [], timelines = [], iterations = 0 \<rparr> = Inr 0
   \<and> cost_std \<lparr> costs = [], timelines = [], iterations = 0 \<rparr> = Inr 0
   \<and> timeline_mean \<lparr> costs = [], timelines = [], iterations = 0 \<rparr> = Inr 0
   \<and> timeline_std \<lparr> costs = [], timelines = [], iterations = 0 \<rparr> = Inr 0"
  using empty_series_statistics [of "\<lparr> costs = [], timelines = [], iterations = 0 \<rparr>" 0]
  by simp

text \<open>The four statistics return a value on every series: the division is guarded.\<close>

lemma statistics_never_raise:
  "(\<exists>v. cost_mean r = Inr v) \<and> (\<exists>v. cost_std r = Inr v)
   \<and> (\<exists>v. timeline_mean r = Inr v) \<and> (\<exists>v. timeline_std r = Inr v)"
  by (simp add: cost_mean_def cost_std_def timeline_mean_def timeline_std_def py_div_def)

subsection \<open>Percentiles\<close>







subsection \<open>Length of the simulated series\<close>

text \<open>A single scenario never raises when the team size is positive: every task id has a
  perturbed duration, and the division by the team size is defined.\<close>

lemma scenario_tasks_keys:
  "scenario_tasks p ts (c, durs, g) = (c', durs', g') \<Longrightarrow>
     fst ` set durs' = fst ` set durs \<union> task_id ` set ts"
proof (induction ts arbitrary: c durs g)
  case Nil then show ?case by simp
next
  case (Cons t ts)
  then show ?case
    by (auto simp: Let_def dom_update split: prod.splits)
qed

lemma scenario_finish_times_ok:
  "task_id ` set ts \<subseteq> fst ` set durs \<Longrightarrow> \<exists>tft'. scenario_finish_times durs ts tft = Inr tft'"
proof (induction ts arbitrary: tft)
  case Nil then show ?case by simp
next
  case (Cons t ts)
  from Cons.prems have "task_id t \<in> fst ` set durs" by auto
  then have "map_of durs (task_id t) \<noteq> None" by (simp add: map_of_eq_None_iff)
  then obtain d where "dict_at durs (task_id t) = Inr d" by (auto simp: dict_at_def)
  then show ?case using Cons by auto
qed

lemma max_or_zero_ok: "\<exists>m. max_or_zero d = Inr m"
  by (cases d) (auto simp: max_or_zero_def py_max_def dict_values_def)

lemma simulate_single_scenario_ok:
  assumes "0 < team_size p"
  shows "\<exists>c t g'. simulate_single_scenario p g = Inr ((c, t), g')"
proof -
  obtain c durs g1 where st: "scenario_tasks p (tasks p) (0, [], g) = (c, durs, g1)"
    by (metis prod_cases3)
  from scenario_tasks_keys [OF st] have "task_id ` set (tasks p) \<subseteq> fst ` set durs" by simp
  from scenario_finish_times_ok [OF this]
  obtain tft where tft: "scenario_finish_times durs (tasks p) [] = Inr tft" by blast
  obtain m where m: "max_or_zero tft = Inr m" using max_or_zero_ok by blast
  have "\<exists>tl g2. calculate_scenario_timeline p durs g1 = Inr (tl, g2)"
    using assms tft m
    by (auto simp: calculate_scenario_timeline_def py_div_def split: prod.splits)
  then show ?thesis
    using st by (auto simp: simulate_single_scenario_def split: prod.splits)
qed

lemma simulation_rounds_lengths:
  assumes "0 < team_size p"
  shows "\<exists>cs' tls'. simulation_rounds p k cs tls g = Inr (cs', tls')
           \<and> length cs' = length cs + k \<and> length tls' = length tls + k"
proof (induction k arbitrary: cs tls g)
  case 0 then show ?case by simp
next
  case (Suc k)
  obtain c t g' where "simulate_single_scenario p g = Inr ((c, t), g')"
    using simulate_single_scenario_ok [OF assms] by blast
  then show ?case using Suc [of "cs @ [c]" "tls @ [t]" g'] by auto
qed

text \<open>
  C8: for every constructed Project, every requested iteration count \<open>n\<close> and every
  random source, the simulation returns a result whose cost and timeline series both have
  \<open>max(100, n)\<close> entries.
\<close>

theorem run_simulation_lengths:
  "Project_post_init nm ts sz rl d = Inr p \<Longrightarrow>
     \<exists>r. run_simulation (RiskSimulator_init p n) g = Inr r
        \<and> length (costs r) = nat (max 100 n) \<and> length (timelines r) = nat (max 100 n)
        \<and> iterations r = max 100 n"
proof -
  assume "Project_post_init nm ts sz rl d = Inr p"
  then have "0 < team_size p"
    by (auto simp: Project_post_init_def split: if_splits)
  from simulation_rounds_lengths [OF this, of "nat (max 100 n)" "[]" "[]" g]
  show ?thesis
    by (auto simp: run_simulation_def RiskSimulator_init_def)
qed

theorem run_simulation_lengths_witness:
  "\<exists>r. run_simulation
         (RiskSimulator_init
            \<lparr> project_name = ''P'',
              tasks = [\<lparr> name = ''A'', estimated_days = 5, cost_per_day = 10, dependencies = [],
                         task_id = ''a'' \<rparr>],
              team_size = 1, risk_level = ''low'', description = [] \<rparr> 5) (\<lambda>n. 1 / 2) = Inr r
       \<and> length (costs r) = 100 \<and> length (timelines r) = 100"
proof -
  let ?t = "\<lparr> name = ''A'', estimated_days = 5, cost_per_day = 10, dependencies = [],
              task_id = ''a'' \<rparr>"
  let ?p = "\<lparr> project_name = ''P'', tasks = [?t], team_size = 1, risk_level = ''low'',
              description = [] \<rparr>"
  have good: "Project_post_init ''P'' [?t] 1 ''LOW'' [] = Inr ?p"
    by (simp add: Project_post_init_def valid_risk_levels_def lower_def lower_char_def)
  from run_simulation_lengths [OF good, of 5 "\<lambda>n. 1 / 2"] show ?thesis
    by auto
qed

subsection \<open>Critical path of a chain\<close>

text \<open>\<open>get_critical_path\<close> reads nothing of the Project but its tasks.\<close>

lemma get_critical_path_tasks:
  "tasks p = tasks q \<Longrightarrow> get_critical_path p = get_critical_path q"
  unfolding get_critical_path_def by (erule subst) (rule refl)

lemma chain_orders:
  fixes na nb nc :: string and ca cb cc :: real
  defines "A \<equiv> \<lparr> name = na, estimated_days = 5, cost_per_day = ca, dependencies = [],
                  task_id = ''a'' \<rparr>"
    and "B \<equiv> \<lparr> name = nb, estimated_days = 10, cost_per_day = cb, dependencies = [''a''],
                  task_id = ''b'' \<rparr>"
    and "C \<equiv> \<lparr> name = nc, estimated_days = 3, cost_per_day = cc, dependencies = [''b''],
                  task_id = ''c'' \<rparr>"
  assumes "ts \<in> {[A, B, C], [A, C, B], [B, A, C], [B, C, A], [C, A, B], [C, B, A]}"
  shows "get_critical_path \<lparr> project_name = [], tasks = ts, team_size = 0, risk_level = [],
           description = [] \<rparr> = Some (Inr [A, B, C])"
proof -
  let ?P = "\<lambda>ts. get_critical_path \<lparr> project_name = [], tasks = ts, team_size = 0,
                     risk_level = [], description = [] \<rparr> = Some (Inr [A, B, C])"
  have "?P [A, B, C]" unfolding A_def B_def C_def by code_simp
  moreover have "?P [A, C, B]" unfolding A_def B_def C_def by code_simp
  moreover have "?P [B, A, C]" unfolding A_def B_def C_def by code_simp
  moreover have "?P [B, C, A]" unfolding A_def B_def C_def by code_simp
  moreover have "?P [C, A, B]" unfolding A_def B_def C_def by code_simp
  moreover have "?P [C, B, A]" unfolding A_def B_def C_def by code_simp
  ultimately show ?thesis using assms(4) by blast
qed

text \<open>
  C6: for the chain A (5 days), B (10 days, after A), C (3 days, after B), whatever the
  names, the rates, the team size and the order in which the three tasks were inserted,
  \<open>get_critical_path\<close> returns A, B, C in this order, and their durations add up to 18.
\<close>

theorem critical_path_chain:
  assumes "A = \<lparr> name = na, estimated_days = 5, cost_per_day = ca, dependencies = [],
                 task_id = ''a'' \<rparr>"
    and "B = \<lparr> name = nb, estimated_days = 10, cost_per_day = cb, dependencies = [''a''],
                 task_id = ''b'' \<rparr>"
    and "C = \<lparr> name = nc, estimated_days = 3, cost_per_day = cc, dependencies = [''b''],
                 task_id = ''c'' \<rparr>"
    and "tasks p \<in> {[A, B, C], [A, C, B], [B, A, C], [B, C, A], [C, A, B], [C, B, A]}"
  shows "get_critical_path p = Some (Inr [A, B, C])
         \<and> sum_list (map estimated_days [A, B, C]) = 18"
proof -
  have "get_critical_path p =
          get_critical_path \<lparr> project_name = [], tasks = tasks p, team_size = 0,
            risk_level = [], description = [] \<rparr>"
    by (rule get_critical_path_tasks) simp
  also have "\<dots> = Some (Inr [A, B, C])"
    using chain_orders [of "tasks p" na ca nb cb nc cc] assms by simp
  finally show ?thesis using assms(1-3) by simp
qed

theorem critical_path_chain_witness:
  "get_critical_path
     \<lparr> project_name = ''Dependent Project'',
       tasks = [\<lparr> name = ''C'', estimated_days = 3, cost_per_day = 800, dependencies = [''b''],
                  task_id = ''c'' \<rparr>,
                \<lparr> name = ''A'', estimated_days = 5, cost_per_day = 1000, dependencies = [],
                  task_id = ''a'' \<rparr>,
                \<lparr> name = ''B'', estimated_days = 10, cost_per_day = 1500, dependencies = [''a''],
                  task_id = ''b'' \<rparr>],
       team_size = 3, risk_level = ''low'', description = [] \<rparr> =
   Some (Inr [\<lparr> name = ''A'', estimated_days = 5, cost_per_day = 1000, dependencies = [],
                 task_id = ''a'' \<rparr>,
              \<lparr> name = ''B'', estimated_days = 10, cost_per_day = 1500, dependencies = [''a''],
                 task_id = ''b'' \<rparr>,
              \<lparr> name = ''C'', estimated_days = 3, cost_per_day = 800, dependencies = [''b''],
                 task_id = ''c'' \<rparr>])"
proof -
  let ?A = "\<lparr> name = ''A'', estimated_days = 5, cost_per_day = 1000, dependencies = [],
                 task_id = ''a'' \<rparr>"
  let ?B = "\<lparr> name = ''B'', estimated_days = 10, cost_per_day = 1500, dependencies = [''a''],
                 task_id = ''b'' \<rparr>"
  let ?C = "\<lparr> name = ''C'', estimated_days = 3, cost_per_day = 800, dependencies = [''b''],
                  task_id = ''c'' \<rparr>"
  let ?p = "\<lparr> project_name = ''Dependent Project'', tasks = [?C, ?A, ?B], team_size = 3,
              risk_level = ''low'', description = [] \<rparr>"
  have order: "tasks ?p \<in> {[?A, ?B, ?C], [?A, ?C, ?B], [?B, ?A, ?C], [?B, ?C, ?A],
                 [?C, ?A, ?B], [?C, ?B, ?A]}"
    by simp
  from critical_path_chain [OF refl refl refl order] show ?thesis
    by blast
qed

subsection \<open>The resource-constrained scheduler\<close>

text \<open>A state that a pass of the loop body maps to itself, with tasks still waiting, is
  never left: the loop does not return from it.\<close>

lemma schedule_loop_stuck:
  assumes round: "schedule_round tsz0 s0 = Inr s0"
    and clock: "advance_clock s0 = Inr (Some s0)"
    and busy: "remaining_tasks s0 \<noteq> []"
  shows "schedule_loop tsz0 s0 = None"
proof (cases "schedule_loop tsz0 s0")
  case None
  then show ?thesis .
next
  case (Some y)
  have "\<not> (tsz0 = tsz0 \<and> s0 = s0)"
  proof (rule schedule_loop.raw_induct
      [where P = "\<lambda>tsz s y. \<not> (tsz = tsz0 \<and> s = s0)" and tsz = tsz0 and s = s0 and y = y],
      goal_cases)
    case (1 f tsz s z)
    show ?case
    proof
      assume "tsz = tsz0 \<and> s = s0"
      with 1(2) round clock busy have "f tsz0 s0 = Some z" by simp
      from 1(1) [OF this] show False by simp
    qed
  next
    case 2
    show ?case by (rule Some)
  qed
  then show ?thesis by simp
qed

text \<open>
  C3, evaluated on a Project the code accepts: task A depends on an id that names no task,
  task B is independent, and the team has one member.  B is scheduled and retired; A never
  becomes ready, no task is active, and the clock is set to 0 on every pass.  The loop does
  not return.
\<close>

theorem schedule_never_returns_on_dangling_dependency:
  "simulate_resource_constrained_schedule
     \<lparr> project_name = ''P'',
       tasks = [\<lparr> name = ''A'', estimated_days = 1, cost_per_day = 1,
                  dependencies = [''ghost''], task_id = ''a'' \<rparr>,
                \<lparr> name = ''B'', estimated_days = 1, cost_per_day = 1, dependencies = [],
                  task_id = ''b'' \<rparr>],
       team_size = 1, risk_level = ''low'', description = [] \<rparr> = None"
proof -
  let ?A = "\<lparr> name = ''A'', estimated_days = 1, cost_per_day = 1,
              dependencies = [''ghost''], task_id = ''a'' \<rparr>"
  let ?B = "\<lparr> name = ''B'', estimated_days = 1, cost_per_day = 1, dependencies = [],
              task_id = ''b'' \<rparr>"
  let ?s0 = "\<lparr> scheduled_finish = [], active_tasks = [], current_time = 0,
               remaining_tasks = [?A, ?B] \<rparr>"
  let ?s1 = "\<lparr> scheduled_finish = [(''b'', 1)], active_tasks = [?B], current_time = 1,
               remaining_tasks = [?A] \<rparr>"
  let ?stuck = "\<lparr> scheduled_finish = [(''b'', 1)], active_tasks = [], current_time = 0,
                  remaining_tasks = [?A] \<rparr>"
  have first: "dependency_times [?A, ?B] ([], []) = ([(''a'', 0), (''b'', 0)], [(''a'', 1), (''b'', 1)])"
    by code_simp
  have sorted: "sort_tasks [(''a'', 0), (''b'', 0)] [?A, ?B] = Inr [?A, ?B]"
    by code_simp
  have r0: "schedule_round 1 ?s0 =
     Inr \<lparr> scheduled_finish = [(''b'', 1)], active_tasks = [?B], current_time = 0,
               remaining_tasks = [?A] \<rparr>"
    by code_simp
  have c0: "advance_clock \<lparr> scheduled_finish = [(''b'', 1)], active_tasks = [?B], current_time = 0,
               remaining_tasks = [?A] \<rparr> = Inr (Some ?s1)"
    by code_simp
  have r1: "schedule_round 1 ?s1 =
     Inr \<lparr> scheduled_finish = [(''b'', 1)], active_tasks = [], current_time = 1,
               remaining_tasks = [?A] \<rparr>"
    by code_simp
  have c1: "advance_clock \<lparr> scheduled_finish = [(''b'', 1)], active_tasks = [], current_time = 1,
               remaining_tasks = [?A] \<rparr> = Inr (Some ?stuck)"
    by code_simp
  have r2: "schedule_round 1 ?stuck = Inr ?stuck"
    by code_simp
  have c2: "advance_clock ?stuck = Inr (Some ?stuck)"
    by code_simp
  have stuck: "schedule_loop 1 ?stuck = None"
    by (rule schedule_loop_stuck [OF r2 c2]) simp
  have "schedule_loop 1 ?s1 = None"
    by (subst schedule_loop.simps) (simp add: r1 c1 stuck)
  then have "schedule_loop 1 ?s0 = None"
    by (subst schedule_loop.simps) (simp add: r0 c0)
  then show ?thesis
    by (simp add: simulate_resource_constrained_schedule_def first sorted task_count_def
        del: dependency_times.simps)
qed

text \<open>
  C2, evaluated on a Project the code accepts: B (10 days) depends on A (5 days), the team
  has two members, and B was inserted before A.  The scheduler returns 10, the maximum
  dependency-respecting finish time is 15, and with A inserted before B the scheduler
  returns 15.
\<close>

theorem schedule_ignores_later_dependency:
  "simulate_resource_constrained_schedule
     \<lparr> project_name = ''P'',
       tasks = [\<lparr> name = ''B'', estimated_days = 10, cost_per_day = 1,
                  dependencies = [''a''], task_id = ''b'' \<rparr>,
                \<lparr> name = ''A'', estimated_days = 5, cost_per_day = 1, dependencies = [],
                  task_id = ''a'' \<rparr>],
       team_size = 2, risk_level = ''low'', description = [] \<rparr> = Some (Inr 10)
   \<and> spec_max_finish
        [\<lparr> name = ''B'', estimated_days = 10, cost_per_day = 1,
           dependencies = [''a''], task_id = ''b'' \<rparr>,
         \<lparr> name = ''A'', estimated_days = 5, cost_per_day = 1, dependencies = [],
           task_id = ''a'' \<rparr>] = 15
   \<and> simulate_resource_constrained_schedule
     \<lparr> project_name = ''P'',
       tasks = [\<lparr> name = ''A'', estimated_days = 5, cost_per_day = 1, dependencies = [],
                  task_id = ''a'' \<rparr>,
                \<lparr> name = ''B'', estimated_days = 10, cost_per_day = 1,
                  dependencies = [''a''], task_id = ''b'' \<rparr>],
       team_size = 2, risk_level = ''low'', description = [] \<rparr> = Some (Inr 15)"
  by code_simp

subsection \<open>The schedule and the critical path against the sum of the durations\<close>

text \<open>
  The lemmas of this subsection bound the result of the scheduler and the duration of the
  critical path by the sum of all durations. They are facts of the arithmetic of this
  model, the real numbers. The source adds in binary64, along the schedule in another
  order than in \<open>total_estimated_days\<close>, and the rounded sums of one set of durations can
  differ in the last place (\<open>0.3 + 0.2 + 0.1\<close> is \<open>0.6\<close>, \<open>0.1 + 0.2 + 0.3\<close> is
  \<open>0.6000000000000001\<close>): the bounds hold in the source up to that rounding only.
\<close>

text \<open>Finish times computed by the first loop of the scheduler never exceed the sum of the
  durations of the tasks visited, when no duration is negative.\<close>

lemma set_update_subset: "set (AList.update k v al) \<subseteq> insert (k, v) (set al)"
  by (induction al) auto

lemma fold_max_mem: "fold max ys (y::real) \<in> set (y # ys)"
  by (induction ys arbitrary: y) (auto simp: max_def)

lemma fold_min_mem: "fold min ys (y::real) \<in> set (y # ys)"
  by (induction ys arbitrary: y) (auto simp: min_def)

lemma py_max_mem: "py_max xs = Inr m \<Longrightarrow> m \<in> set xs"
  using fold_max_mem by (cases xs) (auto simp: py_max_def)

lemma py_min_mem: "py_min xs = Inr m \<Longrightarrow> m \<in> set xs"
  using fold_min_mem by (cases xs) (auto simp: py_min_def)

lemma max_or_zero_bound:
  assumes "max_or_zero d = Inr m" "\<forall>(k, v) \<in> set d. v \<le> b" "0 \<le> b"
  shows "m \<le> b"
proof (cases "d = []")
  case True
  with assms show ?thesis by (simp add: max_or_zero_def)
next
  case False
  with assms(1) have "m \<in> snd ` set d"
    using py_max_mem [of "dict_values d" m] by (simp add: max_or_zero_def dict_values_def)
  with assms(2) show ?thesis by auto
qed

lemma deps_earliest_start_bound:
  assumes "\<forall>(k, v) \<in> set tft. v \<le> b" "0 \<le> b"
  shows "deps_earliest_start tft deps \<le> b"
proof -
  have "fold (\<lambda>dep_id earliest_start.
             case map_of tft dep_id of
               Some f \<Rightarrow> max earliest_start f
             | None \<Rightarrow> earliest_start) deps e \<le> b" if "e \<le> b" for e
    using that
  proof (induction deps arbitrary: e)
    case Nil
    then show ?case by simp
  next
    case (Cons dep deps)
    show ?case
    proof (cases "map_of tft dep")
      case None
      with Cons show ?thesis by simp
    next
      case (Some f)
      then have "(dep, f) \<in> set tft" by (rule map_of_SomeD)
      with assms(1) have "f \<le> b" by auto
      with Cons Some show ?thesis by simp
    qed
  qed
  from this [of 0] assms(2) show ?thesis by (simp add: deps_earliest_start_def)
qed

lemma dependency_times_bound:
  assumes "\<forall>t \<in> set ts. 0 \<le> estimated_days t"
    and "\<forall>(k, v) \<in> set tft. v \<le> b" "0 \<le> b"
    and "dependency_times ts (tst, tft) = (tst', tft')"
  shows "\<forall>(k, v) \<in> set tft'. v \<le> b + sum_list (map estimated_days ts)"
  using assms
proof (induction ts arbitrary: tst tft b)
  case Nil
  then show ?case by simp
next
  case (Cons t ts)
  let ?es = "deps_earliest_start tft (dependencies t)"
  let ?tft = "AList.update (task_id t) (?es + estimated_days t) tft"
  have es: "?es \<le> b" using Cons.prems(2,3) by (rule deps_earliest_start_bound)
  have d: "0 \<le> estimated_days t" using Cons.prems(1) by simp
  have a: "\<forall>(k, v) \<in> set ?tft. v \<le> b + estimated_days t"
    using set_update_subset [of "task_id t" "?es + estimated_days t" tft] Cons.prems(2) es d
    by fastforce
  have b: "0 \<le> b + estimated_days t" using Cons.prems(3) d by simp
  have c: "dependency_times ts (AList.update (task_id t) ?es tst, ?tft) = (tst', tft')"
    using Cons.prems(4) by (simp add: Let_def)
  have e: "\<forall>t \<in> set ts. 0 \<le> estimated_days t" using Cons.prems(1) by simp
  have "\<forall>(k, v) \<in> set tft'. v \<le> b + estimated_days t + sum_list (map estimated_days ts)"
    by (rule Cons.IH [OF e a b c])
  then show ?case by (simp add: add.assoc)
qed

text \<open>One pass of the rescheduling loop keeps the invariant.  With a positive team size
  the statement \<open>current_time += 0.1\<close> is never reached: a waiting task without
  dependencies is started as soon as no task is active.\<close>

lemma map_err_all2: "map_err f xs = Inr ys \<Longrightarrow> list_all2 (\<lambda>x y. f x = Inr y) xs ys"
  by (induction xs arbitrary: ys) (auto split: sum.splits)

lemma dict_at_mem: "dict_at d k = Inr v \<Longrightarrow> (k, v) \<in> set d"
  by (auto simp: dict_at_def split: option.splits dest: map_of_SomeD)

lemma lookups_mem:
  assumes "map_err (\<lambda>t. dict_at d (task_id t)) ts = Inr fs" "f \<in> set fs"
  shows "f \<in> snd ` set d"
proof -
  from assms(1) have "list_all2 (\<lambda>t y. dict_at d (task_id t) = Inr y) ts fs"
    by (rule map_err_all2)
  moreover from assms(2) obtain i where "i < length fs" "fs ! i = f"
    by (auto simp: in_set_conv_nth)
  ultimately have "dict_at d (task_id (ts ! i)) = Inr f"
    by (auto dest: list_all2_nthD2)
  then have "(task_id (ts ! i), f) \<in> set d" by (rule dict_at_mem)
  then show ?thesis by force
qed

lemma start_tasks_props:
  assumes "start_tasks now can (sf, act, rem) = Inr (sf', act', rem')"
    and "\<forall>t \<in> set can. 0 \<le> estimated_days t"
    and "\<forall>(k, v) \<in> set sf. v \<le> b" "now \<le> b"
  shows "act' = act @ can
     \<and> sum_list (map estimated_days rem') =
         sum_list (map estimated_days rem) - sum_list (map estimated_days can)
     \<and> set rem' \<subseteq> set rem
     \<and> (\<forall>(k, v) \<in> set sf'. v \<le> b + sum_list (map estimated_days can))
     \<and> (can = [] \<longrightarrow> rem' = rem)"
  using assms
proof (induction can arbitrary: sf act rem b)
  case Nil
  then show ?case by simp
next
  case (Cons t can)
  let ?sf = "AList.update (task_id t) (now + estimated_days t) sf"
  from Cons.prems(1) have mem: "t \<in> set rem"
    by (auto split: if_splits)
  with Cons.prems(1) have run: "start_tasks now can (?sf, act @ [t], remove1 t rem) = Inr (sf', act', rem')"
    by simp
  have d: "0 \<le> estimated_days t" using Cons.prems(2) by simp
  have a: "\<forall>t \<in> set can. 0 \<le> estimated_days t" using Cons.prems(2) by simp
  have b: "\<forall>(k, v) \<in> set ?sf. v \<le> b + estimated_days t"
    using set_update_subset [of "task_id t" "now + estimated_days t" sf] Cons.prems(3,4) d
    by fastforce
  have c: "now \<le> b + estimated_days t" using Cons.prems(4) d by simp
  note IH = Cons.IH [OF run a b c]
  have "sum_list (map estimated_days (remove1 t rem)) = sum_list (map estimated_days rem) - estimated_days t"
    using mem by (simp add: sum_list_map_remove1)
  moreover have "set (remove1 t rem) \<subseteq> set rem" by (rule set_remove1_subset)
  ultimately show ?case using IH by (auto simp: add.assoc)
qed

lemma start_tasks_active:
  "start_tasks now can (sf, act, rem) = Inr (sf', act', rem') \<Longrightarrow>
     act' = act @ can \<and> (can = [] \<longrightarrow> rem' = rem)"
proof (induction can arbitrary: sf act rem)
  case Nil
  then show ?case by simp
next
  case (Cons t can)
  from Cons.prems have "t \<in> set rem"
    by (auto split: if_splits)
  with Cons.prems have "start_tasks now can
      (AList.update (task_id t) (now + estimated_days t) sf, act @ [t], remove1 t rem) =
      Inr (sf', act', rem')"
    by simp
  from Cons.IH [OF this] show ?case by simp
qed

lemma schedule_roundE:
  assumes "schedule_round tsz s = Inr s1"
  obtains fs act can sf rem where
    "map_err (\<lambda>t. dict_at (scheduled_finish s) (task_id t)) (active_tasks s) = Inr fs"
    "act = map fst (filter (\<lambda>(t, f). current_time s < f) (zip (active_tasks s) fs))"
    "can = filter (\<lambda>t. deps_complete (scheduled_finish s) (current_time s) t
                        \<and> int (length act) < tsz) (remaining_tasks s)"
    "start_tasks (current_time s) can (scheduled_finish s, act, remaining_tasks s) =
       Inr (sf, act @ can, rem)"
    "s1 = s\<lparr> scheduled_finish := sf, active_tasks := act @ can, remaining_tasks := rem \<rparr>"
proof -
  from assms obtain fs where
    fs: "map_err (\<lambda>t. dict_at (scheduled_finish s) (task_id t)) (active_tasks s) = Inr fs"
    by (auto simp: schedule_round_def split: sum.splits)
  define act where "act = map fst (filter (\<lambda>(t, f). current_time s < f) (zip (active_tasks s) fs))"
  define can where "can = filter (\<lambda>t. deps_complete (scheduled_finish s) (current_time s) t
                        \<and> int (length act) < tsz) (remaining_tasks s)"
  from assms fs obtain sf act' rem where
    st: "start_tasks (current_time s) can (scheduled_finish s, act, remaining_tasks s) =
       Inr (sf, act', rem)"
    and s1: "s1 = s\<lparr> scheduled_finish := sf, active_tasks := act', remaining_tasks := rem \<rparr>"
    by (auto simp: schedule_round_def Let_def act_def can_def split: sum.splits)
  from start_tasks_active [OF st] have "act' = act @ can" by simp
  with st s1 fs act_def can_def that show ?thesis by blast
qed

lemma schedule_round_inv:
  assumes "schedule_inv T s" "schedule_round tsz s = Inr s1"
  shows "schedule_inv T s1"
proof -
  from assms(2) obtain fs act can sf rem where
    can: "can = filter (\<lambda>t. deps_complete (scheduled_finish s) (current_time s) t
                        \<and> int (length act) < tsz) (remaining_tasks s)"
    and st: "start_tasks (current_time s) can (scheduled_finish s, act, remaining_tasks s) =
       Inr (sf, act @ can, rem)"
    and s1: "s1 = s\<lparr> scheduled_finish := sf, active_tasks := act @ can, remaining_tasks := rem \<rparr>"
    by (rule schedule_roundE)
  let ?R = "sum_list (map estimated_days (remaining_tasks s))"
  have can_nonneg: "\<forall>t \<in> set can. 0 \<le> estimated_days t"
    using assms(1) by (auto simp: schedule_inv_def can)
  have sfb: "\<forall>(k, v) \<in> set (scheduled_finish s). v \<le> T - ?R"
    and now: "current_time s \<le> T - ?R"
    using assms(1) by (auto simp: schedule_inv_def)
  from start_tasks_props [OF st can_nonneg sfb now]
  have sum: "sum_list (map estimated_days rem) = ?R - sum_list (map estimated_days can)"
    and sub: "set rem \<subseteq> set (remaining_tasks s)"
    and sf: "\<forall>(k, v) \<in> set sf. v \<le> T - ?R + sum_list (map estimated_days can)"
    by auto
  have "0 \<le> sum_list (map estimated_days can)"
    using can_nonneg by (intro sum_list_nonneg) auto
  then show ?thesis
    using assms(1) sum sub sf now unfolding s1 schedule_inv_def by auto
qed

lemma schedule_round_no_epsilon:
  assumes "schedule_round tsz s = Inr s1" "0 < tsz"
    and "active_tasks s1 = []" "remaining_tasks s1 = t # r"
  shows "dependencies t \<noteq> []"
proof
  assume nodeps: "dependencies t = []"
  from assms(1) obtain fs act can sf rem where
    can: "can = filter (\<lambda>t. deps_complete (scheduled_finish s) (current_time s) t
                        \<and> int (length act) < tsz) (remaining_tasks s)"
    and st: "start_tasks (current_time s) can (scheduled_finish s, act, remaining_tasks s) =
       Inr (sf, act @ can, rem)"
    and s1: "s1 = s\<lparr> scheduled_finish := sf, active_tasks := act @ can, remaining_tasks := rem \<rparr>"
    by (rule schedule_roundE)
  from assms(3) s1 have empty: "act = []" "can = []" by simp_all
  with start_tasks_active [OF st] have "rem = remaining_tasks s" by simp
  with assms(4) s1 have "t \<in> set (remaining_tasks s)" by simp
  moreover have "deps_complete (scheduled_finish s) (current_time s) t"
    using nodeps by (simp add: deps_complete_def)
  ultimately have "t \<in> set can"
    using assms(2) empty(1) by (simp add: can)
  with empty(2) show False by simp
qed

lemma advance_clock_inv:
  assumes "schedule_inv T s1" "advance_clock s1 = Inr (Some s2)"
    and "active_tasks s1 = [] \<Longrightarrow> \<forall>t r. remaining_tasks s1 = t # r \<longrightarrow> dependencies t \<noteq> []"
  shows "schedule_inv T s2"
proof (cases "active_tasks s1 = []")
  case False
  with assms(2) obtain fs m where
    fs: "map_err (\<lambda>t. dict_at (scheduled_finish s1) (task_id t)) (active_tasks s1) = Inr fs"
    and m: "py_min fs = Inr m" and s2: "s2 = s1\<lparr> current_time := m \<rparr>"
    by (auto simp: advance_clock_def split: sum.splits)
  from py_min_mem [OF m] lookups_mem [OF fs] have "m \<in> snd ` set (scheduled_finish s1)"
    by simp
  with assms(1) show ?thesis unfolding s2 schedule_inv_def by auto
next
  case True
  with assms(2) obtain t r where rem: "remaining_tasks s1 = t # r"
    by (auto simp: advance_clock_def split: list.splits)
  with assms(3) True have deps: "dependencies t \<noteq> []" by simp
  with assms(2) True rem obtain m where
    m: "py_max (map (\<lambda>dep_id. dict_get (scheduled_finish s1) dep_id 0) (dependencies t)) = Inr m"
    and s2: "s2 = s1\<lparr> current_time := m \<rparr>"
    by (auto simp: advance_clock_def split: sum.splits)
  let ?b = "T - sum_list (map estimated_days (remaining_tasks s1))"
  have "0 \<le> ?b" using assms(1) by (simp add: schedule_inv_def)
  moreover have "\<forall>(k, v) \<in> set (scheduled_finish s1). v \<le> ?b"
    using assms(1) by (simp add: schedule_inv_def)
  ultimately have "dict_get (scheduled_finish s1) dep 0 \<le> ?b" for dep
    by (auto simp: dict_get_def split: option.splits dest!: map_of_SomeD)
  with py_max_mem [OF m] have "m \<le> ?b" by auto
  with assms(1) show ?thesis unfolding s2 schedule_inv_def by auto
qed

lemma schedule_loop_bound:
  assumes "schedule_loop tsz s = Some (Inr v)" "0 < tsz" "schedule_inv T s"
  shows "v \<le> T"
proof -
  have "0 < tsz \<longrightarrow> schedule_inv T s \<longrightarrow> (\<forall>w. (Inr v :: error + real) = Inr w \<longrightarrow> w \<le> T)"
  proof (rule schedule_loop.raw_induct
      [where P = "\<lambda>(tsz::int) s y. 0 < tsz \<longrightarrow> schedule_inv T s \<longrightarrow> (\<forall>w. y = Inr w \<longrightarrow> w \<le> T)"
         and tsz = tsz and s = s and y = "Inr v"], goal_cases)
    case (1 f tsz s y)
    show ?case
    proof (intro impI allI)
      fix v assume tsz: "0 < tsz" and inv: "schedule_inv T s" and y: "y = Inr v"
      have final: "v \<le> T" if "max_or_zero (scheduled_finish s') = Inr v" "schedule_inv T s'" for s'
      proof -
        let ?R = "sum_list (map estimated_days (remaining_tasks s'))"
        have "0 \<le> ?R" using that(2) by (intro sum_list_nonneg) (auto simp: schedule_inv_def)
        moreover have "\<forall>(k, v) \<in> set (scheduled_finish s'). v \<le> T - ?R" "0 \<le> T - ?R"
          using that(2) by (auto simp: schedule_inv_def)
        with that(1) have "v \<le> T - ?R"
          by (rule max_or_zero_bound)
        ultimately show ?thesis by simp
      qed
      show "v \<le> T"
      proof (cases "remaining_tasks s = [] \<and> active_tasks s = []")
        case True
        with 1(2) y have "max_or_zero (scheduled_finish s) = Inr v" by simp
        then show ?thesis using inv by (rule final)
      next
        case False
        with 1(2) y obtain s1 where round: "schedule_round tsz s = Inr s1"
          by (auto split: sum.splits)
        have inv1: "schedule_inv T s1" using inv round by (rule schedule_round_inv)
        show ?thesis
        proof (cases "advance_clock s1")
          case (Inl e)
          with 1(2) y False round show ?thesis by simp
        next
          case (Inr r)
          show ?thesis
          proof (cases r)
            case None
            with 1(2) y False round Inr have "max_or_zero (scheduled_finish s1) = Inr v" by simp
            then show ?thesis using inv1 by (rule final)
          next
            case (Some s2)
            with 1(2) y False round Inr have call: "f tsz s2 = Some (Inr v)" by simp
            have clock: "advance_clock s1 = Inr (Some s2)"
              using Inr Some by simp
            have "schedule_inv T s2"
              using inv1 clock
            proof (rule advance_clock_inv)
              assume "active_tasks s1 = []"
              with schedule_round_no_epsilon [OF round tsz]
              show "\<forall>t r. remaining_tasks s1 = t # r \<longrightarrow> dependencies t \<noteq> []"
                by blast
            qed
            with 1(1) [OF call] tsz show ?thesis by simp
          qed
        qed
      qed
    qed
  next
    case 2
    show ?case by (rule assms(1))
  qed
  with assms(2,3) show ?thesis by simp
qed

text \<open>The critical path: along the backtracking the earliest start times strictly
  decrease when all durations are positive, so no task is taken twice.\<close>

lemma get_task_by_id_Some: "get_task_by_id ts i = Some t \<Longrightarrow> task_id t = i \<and> t \<in> set ts"
  by (induction ts) (auto split: if_splits)

lemma sum_list_distinct_subset:
  fixes f :: "'a \<Rightarrow> real"
  assumes "distinct xs" "set xs \<subseteq> set ys" "\<forall>y \<in> set ys. 0 \<le> f y"
  shows "sum_list (map f xs) \<le> sum_list (map f ys)"
  using assms
proof (induction xs arbitrary: ys)
  case Nil
  then show ?case by (auto intro!: sum_list_nonneg)
next
  case (Cons x xs)
  from Cons.prems have x: "x \<in> set ys" and nx: "x \<notin> set xs" and dx: "distinct xs"
    by auto
  have sub: "set xs \<subseteq> set (remove1 x ys)"
  proof
    fix z assume z: "z \<in> set xs"
    with nx have "z \<noteq> x" by auto
    moreover from z Cons.prems(2) have "z \<in> set ys" by auto
    ultimately show "z \<in> set (remove1 x ys)" by simp
  qed
  have nonneg: "\<forall>y \<in> set (remove1 x ys). 0 \<le> f y"
    using Cons.prems(3) set_remove1_subset [of x ys] by auto
  from Cons.IH [OF dx sub nonneg]
  have "sum_list (map f xs) \<le> sum_list (map f (remove1 x ys))" .
  also have "\<dots> = sum_list (map f ys) - f x"
    using x by (simp add: sum_list_map_remove1)
  finally show ?case by simp
qed

lemma strictly_ascending_distinct:
  fixes k :: "'a \<Rightarrow> real"
  shows "sorted_wrt (\<lambda>a b. k a < k b) xs \<Longrightarrow> distinct xs"
  by (induction xs) auto

lemma find_predecessor_Some:
  assumes "find_predecessor ts es ct deps = Inr (Some dep)"
  shows "\<exists>dt es_d es_c. get_task_by_id ts dep = Some dt \<and> map_of es dep = Some es_d
           \<and> map_of es (task_id ct) = Some es_c \<and> es_d + estimated_days dt = es_c"
  using assms
proof (induction deps)
  case Nil
  then show ?case by simp
next
  case (Cons d deps)
  then show ?case
    by (auto simp: dict_at_def split: sum.splits option.splits if_splits)
qed

lemma backtrack_path:
  assumes "backtrack ts es cur path = Some (Inr res)"
    and "\<forall>t \<in> set ts. 0 < estimated_days t"
    and "path_ok ts es path"
    and "\<forall>cid. cur = Some cid \<longrightarrow>
           (\<forall>t \<in> set path. dict_get es cid 0 < dict_get es (task_id t) 0)"
  shows "path_ok ts es res"
proof -
  let ?P = "\<lambda>(ts :: task list) (es :: real dict) (cur :: string option) (path :: task list)
              (y :: error + task list).
      (\<forall>t \<in> set ts. 0 < estimated_days t) \<longrightarrow> path_ok ts es path \<longrightarrow>
      (\<forall>cid. cur = Some cid \<longrightarrow>
           (\<forall>t \<in> set path. dict_get es cid 0 < dict_get es (task_id t) 0)) \<longrightarrow>
      (\<forall>res. y = Inr res \<longrightarrow> path_ok ts es res)"
  have "?P ts es cur path (Inr res)"
  proof (rule backtrack.raw_induct [where P = ?P], goal_cases)
    case (1 f ts es cur path y)
    show ?case
    proof (intro impI allI)
      fix res
      assume pos: "\<forall>t \<in> set ts. 0 < estimated_days t"
        and ok: "path_ok ts es path"
        and below: "\<forall>cid. cur = Some cid \<longrightarrow>
           (\<forall>t \<in> set path. dict_get es cid 0 < dict_get es (task_id t) 0)"
        and y: "y = Inr res"
      show "path_ok ts es res"
      proof (cases cur)
        case None
        with 1(2) y ok show ?thesis by simp
      next
        case (Some cid)
        show ?thesis
        proof (cases "cid = []")
          case True
          with 1(2) y ok Some show ?thesis by simp
        next
          case False
          with 1(2) y Some obtain ct where ct: "get_task_by_id ts cid = Some ct"
            by (auto split: option.splits)
          from get_task_by_id_Some [OF ct] have ctid: "task_id ct = cid" and ctin: "ct \<in> set ts"
            by simp_all
          have ok': "path_ok ts es (ct # path)"
            using ok below Some ctid ctin by (auto simp: path_ok_def)
          show ?thesis
          proof (cases "dependencies ct = []")
            case True
            with 1(2) y Some False ct have "res = ct # path" by simp
            with ok' show ?thesis by simp
          next
            case nonempty: False
            with 1(2) y Some False ct obtain nxt where
              nxt: "find_predecessor ts es ct (dependencies ct) = Inr nxt"
              and call: "f ts es nxt (ct # path) = Some (Inr res)"
              by (auto split: sum.splits)
            have below': "\<forall>dep. nxt = Some dep \<longrightarrow>
                (\<forall>t \<in> set (ct # path). dict_get es dep 0 < dict_get es (task_id t) 0)"
            proof (intro allI impI ballI)
              fix dep t assume dep: "nxt = Some dep" and t: "t \<in> set (ct # path)"
              from find_predecessor_Some [OF nxt [unfolded dep]]
              obtain dt es_d es_c where dt: "get_task_by_id ts dep = Some dt"
                and d: "map_of es dep = Some es_d" and c: "map_of es (task_id ct) = Some es_c"
                and eq: "es_d + estimated_days dt = es_c"
                by blast
              from get_task_by_id_Some [OF dt] pos have "0 < estimated_days dt" by simp
              with eq d c have lt: "dict_get es dep 0 < dict_get es (task_id ct) 0"
                by (simp add: dict_get_def)
              show "dict_get es dep 0 < dict_get es (task_id t) 0"
              proof (cases "t = ct")
                case True
                with lt show ?thesis by simp
              next
                case False
                with t have "t \<in> set path" by simp
                with below Some ctid have "dict_get es (task_id ct) 0 < dict_get es (task_id t) 0"
                  by simp
                with lt show ?thesis by simp
              qed
            qed
            from 1(1) [OF call] pos ok' below' show ?thesis by blast
          qed
        qed
      qed
    qed
  next
    case 2
    show ?case by (rule assms(1))
  qed
  with assms(2-4) show ?thesis by blast
qed

lemma critical_path_sum:
  assumes "get_critical_path p = Some (Inr cp)"
    and "\<forall>t \<in> set (tasks p). 0 < estimated_days t"
  shows "sum_list (map estimated_days cp) \<le> total_estimated_days p"
proof -
  from assms(1) obtain es end_task_id where
    "backtrack (tasks p) es (Some end_task_id) [] = Some (Inr cp)"
    by (auto simp: get_critical_path_def Let_def split: sum.splits option.splits)
  from backtrack_path [OF this assms(2)] have ok: "path_ok (tasks p) es cp"
    by (simp add: path_ok_def)
  then have "distinct cp"
    using strictly_ascending_distinct [of "\<lambda>t. dict_get es (task_id t) 0" cp]
    by (simp add: path_ok_def)
  moreover from ok have "set cp \<subseteq> set (tasks p)" by (simp add: path_ok_def)
  moreover from assms(2) have "\<forall>t \<in> set (tasks p). 0 \<le> estimated_days t"
    by (auto intro: less_imp_le)
  ultimately show ?thesis
    unfolding total_estimated_days_def by (rule sum_list_distinct_subset)
qed

lemma map_err_length: "map_err f xs = Inr ys \<Longrightarrow> length ys = length xs"
proof (induction xs arbitrary: ys)
  case Nil
  then show ?case by simp
next
  case (Cons x xs)
  from Cons.prems obtain y ys' where "f x = Inr y" "map_err f xs = Inr ys'" "ys = y # ys'"
    by (auto split: sum.splits)
  with Cons.IH [of ys'] show ?case by simp
qed

lemma sort_tasks_mset:
  assumes "sort_tasks tst ts = Inr sorted_tasks"
  shows "mset sorted_tasks = mset ts"
proof -
  define g where "g = (\<lambda>(st :: real, t :: task). ((st, - estimated_days t), t))"
  from assms obtain starts where
    starts: "map_err (\<lambda>t. dict_at tst (task_id t)) ts = Inr starts"
    and sorted: "sorted_tasks = map snd (sort_key fst (map g (zip starts ts)))"
    by (auto simp: sort_tasks_def g_def split: sum.splits)
  have len: "length starts = length ts" using starts by (rule map_err_length)
  have "mset sorted_tasks = image_mset snd (mset (sort_key fst (map g (zip starts ts))))"
    unfolding sorted by (simp only: mset_map)
  also have "\<dots> = image_mset snd (mset (map g (zip starts ts)))"
    by (simp only: mset_sort)
  also have "\<dots> = mset (map snd (map g (zip starts ts)))"
    by (simp only: mset_map)
  also have "map snd (map g (zip starts ts)) = map snd (zip starts ts)"
    by (auto simp: g_def)
  also have "map snd (zip starts ts) = ts"
    using len by simp
  finally show ?thesis .
qed

lemma sum_list_mset_cong:
  fixes f :: "'a \<Rightarrow> real"
  assumes "mset xs = mset ys"
  shows "sum_list (map f xs) = sum_list (map f ys)"
proof -
  from assms have "mset (map f xs) = mset (map f ys)"
    by (simp only: mset_map)
  then have "sum_mset (mset (map f xs)) = sum_mset (mset (map f ys))"
    by (rule arg_cong)
  then show ?thesis
    by (simp only: sum_mset_sum_list)
qed

lemma schedule_bound:
  assumes "simulate_resource_constrained_schedule p = Some (Inr v)"
    and "0 < team_size p"
    and "\<forall>t \<in> set (tasks p). 0 \<le> estimated_days t"
  shows "v \<le> total_estimated_days p"
proof -
  let ?T = "total_estimated_days p"
  have T: "0 \<le> ?T"
    unfolding total_estimated_days_def using assms(3) by (intro sum_list_nonneg) auto
  obtain tst tft where first: "dependency_times (tasks p) ([], []) = (tst, tft)"
    by (cases "dependency_times (tasks p) ([], [])") auto
  have tft: "\<forall>(k, v) \<in> set tft. v \<le> ?T"
    using dependency_times_bound [OF assms(3) _ _ first, of 0]
    by (simp add: total_estimated_days_def)
  show ?thesis
  proof (cases "task_count p \<le> team_size p")
    case True
    with assms(1) first have "max_or_zero tft = Inr v"
      by (simp add: simulate_resource_constrained_schedule_def)
    then show ?thesis using tft T by (rule max_or_zero_bound)
  next
    case False
    with assms(1) first obtain sorted_tasks where
      sorted: "sort_tasks tst (tasks p) = Inr sorted_tasks"
      and loop: "schedule_loop (team_size p)
                   \<lparr> scheduled_finish = [], active_tasks = [], current_time = 0,
                     remaining_tasks = sorted_tasks \<rparr> = Some (Inr v)"
      by (auto simp: simulate_resource_constrained_schedule_def split: sum.splits)
    from sort_tasks_mset [OF sorted] have ms: "mset sorted_tasks = mset (tasks p)" .
    then have "set sorted_tasks = set (tasks p)" by (rule mset_eq_setD)
    moreover have "sum_list (map estimated_days sorted_tasks) = ?T"
      unfolding total_estimated_days_def using ms by (rule sum_list_mset_cong)
    ultimately have "schedule_inv ?T \<lparr> scheduled_finish = [], active_tasks = [],
        current_time = 0, remaining_tasks = sorted_tasks \<rparr>"
      using assms(3) by (simp add: schedule_inv_def)
    with loop assms(2) show ?thesis by (rule schedule_loop_bound)
  qed
qed

lemma get_risk_multiplier_pos: "0 < get_risk_multiplier rl"
  by (simp add: get_risk_multiplier_def dict_get_def)

end
